theory Spec2Isabelle
  imports Main
begin

section \<open>Enki: a shallow embedding of \<^verbatim>\<open>src/enki.h\<close>\<close>

text \<open>
  The header defines two exception classes used as control signals, a class of static
  assertion helpers, the test case engine \<^verbatim>\<open>TestCase<T>\<close> and a hierarchy of result
  exporters. Exceptions are values here: a piece of C++ code that may throw is a function
  that returns how it completed, together with the state it left behind.
\<close>

subsection \<open>Exceptions and completions\<close>

text \<open>
  \<^verbatim>\<open>TestFailedException\<close> and \<^verbatim>\<open>TestPassedException\<close> are the two classes of the header.
  A test body is user code and may throw anything else as well; \<open>OtherException\<close> stands
  for every such object (its argument is the text of \<^verbatim>\<open>what()\<close>).
\<close>

datatype exn = TestFailedException | TestPassedException | OtherException string

datatype completion = Returns | Throws exn

subsection \<open>The object a test runs on\<close>

text \<open>
  A test function is a member function of the subclass \<^verbatim>\<open>T\<close>. It acts on the data members
  that \<^verbatim>\<open>T\<close> declares (\<open>members\<close>) and, by taking time, on the reading of
  \<^verbatim>\<open>high_resolution_clock\<close> (\<open>clock\<close>, in ticks). This first model is for hooks and test
  bodies that use nothing else of their object. A body can also reach the engine's list,
  through \<^verbatim>\<open>add()\<close> and \<^verbatim>\<open>get_data()\<close>; the second model, further down, is for all bodies,
  and agrees with this one on the bodies that leave the list alone (lemma \<open>run_refines\<close>).
\<close>

record 'u world =
  members :: 'u
  clock :: int

type_synonym 'u proc = "'u world \<Rightarrow> completion \<times> 'u world"

text \<open>Two statements in sequence: the second runs only if the first returns.\<close>

definition seq :: "'u proc \<Rightarrow> 'u proc \<Rightarrow> 'u proc" where
  "seq p q w = (case p w of (Returns, w') \<Rightarrow> q w' | (Throws e, w') \<Rightarrow> (Throws e, w'))"

subsection \<open>Class \<^verbatim>\<open>Assert\<close>\<close>

text \<open>\<^verbatim>\<open>static void assert(bool condition) { if(!condition) throw TestFailedException(); }\<close>\<close>

definition assert :: "bool \<Rightarrow> completion" where
  "assert condition = (if \<not> condition then Throws TestFailedException else Returns)"

text \<open>
  \<^verbatim>\<open>static void assert_exception(std::function<void(void)> func)
     { try { func(); } catch(...) { throw TestFailedException(); } }\<close>
\<close>

definition assert_exception :: "'u proc \<Rightarrow> 'u proc" where
  "assert_exception func w =
     (case func w of
        (Returns, w') \<Rightarrow> (Returns, w')
      | (Throws e, w') \<Rightarrow> (Throws TestFailedException, w'))"

text \<open>
  \<^verbatim>\<open>assert_array_equals(const T* a, size_t len_a, const T* b, size_t len_b)\<close>.
  An array is the list of the elements that the pointer may be read at; the lengths are
  arguments of their own, as in the source. Reading past the end of an array is undefined
  behaviour in C++: the result is \<open>None\<close> there.
\<close>

function array_equals_loop :: "'a list \<Rightarrow> nat \<Rightarrow> 'a list \<Rightarrow> nat \<Rightarrow> completion option" where
  "array_equals_loop a len_a b t =
     (if t < len_a then
        (if t < length a \<and> t < length b then
           (if a ! t \<noteq> b ! t then Some (Throws TestFailedException)
            else array_equals_loop a len_a b (Suc t))
         else None)
      else Some Returns)"
  by pat_completeness auto
termination
  by (relation "measure (\<lambda>(a, len_a, b, t). len_a - t)") auto

declare array_equals_loop.simps [simp del]

definition assert_array_equals :: "'a list \<Rightarrow> nat \<Rightarrow> 'a list \<Rightarrow> nat \<Rightarrow> completion option" where
  "assert_array_equals a len_a b len_b =
     (case assert (len_a = len_b) of
        Throws e \<Rightarrow> Some (Throws e)
      | Returns \<Rightarrow> array_equals_loop a len_a b 0)"

subsection \<open>Class \<^verbatim>\<open>TestCase<T>\<close>\<close>

text \<open>
  \<^verbatim>\<open>struct TestData { TestFunc func; const char* name; bool passed; double time; }\<close>.
  The type \<open>'d\<close> stands for \<^verbatim>\<open>double\<close>.
\<close>

record ('u, 'd) TestData =
  func :: "'u proc"
  name :: string
  passed :: bool
  time :: 'd

text \<open>
  The calls that \<^verbatim>\<open>run()\<close> makes, in the order it makes them. This history is not a member
  of the C++ class: it is kept beside the state so that properties about which hooks and
  tests were invoked can be stated. A test is logged by the name of its record.
\<close>

datatype call = Setup | Test string | Cleanup

text \<open>
  The engine: the private list \<open>data\<close>, the virtual functions \<^verbatim>\<open>setup()\<close> and \<^verbatim>\<open>cleanup()\<close> as
  the subclass defines them, the object's own state \<open>self\<close>, and the call history.
\<close>

record ('u, 'd) TestCase =
  data :: "('u, 'd) TestData list"
  setup_hook :: "'u proc"
  cleanup_hook :: "'u proc"
  self :: "'u world"
  calls :: "call list"

text \<open>\<^verbatim>\<open>virtual void setup() {}\<close> and \<^verbatim>\<open>virtual void cleanup() {}\<close>\<close>

definition default_hook :: "'u proc" where
  "default_hook w = (Returns, w)"

text \<open>A freshly constructed test case whose subclass overrides no hook.\<close>

definition new_TestCase :: "'u world \<Rightarrow> ('u, 'd) TestCase" where
  "new_TestCase w = \<lparr>data = [], setup_hook = default_hook, cleanup_hook = default_hook, self = w, calls = []\<rparr>"

text \<open>\<^verbatim>\<open>void add(TestFunc test, const char* name)\<close>: \<^verbatim>\<open>data.push_back({test, name, false, 0.0})\<close>\<close>

definition add :: "'u proc \<Rightarrow> string \<Rightarrow> ('u, 'd::zero) TestCase \<Rightarrow> ('u, 'd) TestCase" where
  "add test nm tc = tc\<lparr>data := data tc @ [\<lparr>func = test, name = nm, passed = False, time = 0\<rparr>]\<rparr>"

text \<open>\<^verbatim>\<open>void pass() const { throw TestPassedException(); }\<close>\<close>

definition pass :: "'u proc" where
  "pass w = (Throws TestPassedException, w)"

text \<open>\<^verbatim>\<open>void fail() const { throw TestFailedException(); }\<close>\<close>

definition fail :: "'u proc" where
  "fail w = (Throws TestFailedException, w)"

text \<open>
  The body of the \<^verbatim>\<open>for\<close> loop of \<^verbatim>\<open>run()\<close>, for the record \<open>td\<close> under the iterator: the
  \<^verbatim>\<open>try\<close> block and its two handlers. The parameter \<open>secs\<close> is
  \<^verbatim>\<open>duration_cast<duration<float>>(t2 - t1).count()\<close> as a function of the tick difference.
  The result is the exception that leaves the loop body, if any, then the record, the
  local \<^verbatim>\<open>err\<close> and the object afterwards.
\<close>

definition run_body ::
  "(int \<Rightarrow> 'd) \<Rightarrow> ('u, 'd) TestData \<Rightarrow> bool \<Rightarrow> 'u world
     \<Rightarrow> exn option \<times> ('u, 'd) TestData \<times> bool \<times> 'u world" where
  "run_body secs td err w =
     (let t1 = clock w in
      case func td w of
        (Returns, w') \<Rightarrow>
          (let t2 = clock w';
               td1 = td\<lparr>time := secs (t2 - t1)\<rparr>
           in (None, td1\<lparr>passed := True\<rparr>, err, w'))
      | (Throws TestFailedException, w') \<Rightarrow> (None, td\<lparr>passed := False\<rparr>, True, w')
      | (Throws TestPassedException, w') \<Rightarrow> (None, td\<lparr>passed := True\<rparr>, err, w')
      | (Throws (OtherException s), w') \<Rightarrow> (Some (OtherException s), td, err, w'))"

text \<open>
  The \<^verbatim>\<open>for\<close> loop, from the iterator's position to \<^verbatim>\<open>data.end()\<close>, for test bodies that
  leave the list alone: the records still to visit are then the rest of the list as it was
  (\<open>run_loop'\<close> below is the loop for all bodies). An exception that no handler catches
  leaves the loop at once; the records behind the iterator stay as they are.
\<close>

fun run_loop ::
  "(int \<Rightarrow> 'd) \<Rightarrow> ('u, 'd) TestData list \<Rightarrow> bool \<Rightarrow> 'u world \<Rightarrow> call list
     \<Rightarrow> (exn + bool) \<times> ('u, 'd) TestData list \<times> 'u world \<times> call list" where
  "run_loop secs [] err w log = (Inr err, [], w, log)"
| "run_loop secs (td # rest) err w log =
     (case run_body secs td err w of
        (Some e, td', err', w') \<Rightarrow> (Inl e, td' # rest, w', log @ [Test (name td)])
      | (None, td', err', w') \<Rightarrow>
          (case run_loop secs rest err' w' (log @ [Test (name td)]) of
             (r, rest', w'', log') \<Rightarrow> (r, td' # rest', w'', log')))"

text \<open>
  \<^verbatim>\<open>bool run()\<close>. \<open>Inr err\<close> is the value returned; \<open>Inl e\<close> is an exception that leaves
  \<^verbatim>\<open>run()\<close>, which happens when a hook throws or a test throws something other than the
  two signals. The state is returned in both cases.
\<close>

definition run :: "(int \<Rightarrow> 'd) \<Rightarrow> ('u, 'd) TestCase \<Rightarrow> (exn + bool) \<times> ('u, 'd) TestCase" where
  "run secs tc =
     (let err = False in
      case setup_hook tc (self tc) of
        (Throws e, w) \<Rightarrow> (Inl e, tc\<lparr>self := w, calls := calls tc @ [Setup]\<rparr>)
      | (Returns, w) \<Rightarrow>
          (case run_loop secs (data tc) err w (calls tc @ [Setup]) of
             (Inl e, ds, w', log) \<Rightarrow> (Inl e, tc\<lparr>data := ds, self := w', calls := log\<rparr>)
           | (Inr err', ds, w', log) \<Rightarrow>
               (case cleanup_hook tc w' of
                  (Throws e, w'') \<Rightarrow>
                    (Inl e, tc\<lparr>data := ds, self := w'', calls := log @ [Cleanup]\<rparr>)
                | (Returns, w'') \<Rightarrow>
                    (Inr err', tc\<lparr>data := ds, self := w'', calls := log @ [Cleanup]\<rparr>))))"

text \<open>\<^verbatim>\<open>std::list<TestData>& get_data() { return data; }\<close>\<close>

definition get_data :: "('u, 'd) TestCase \<Rightarrow> ('u, 'd) TestData list" where
  "get_data tc = data tc"

subsection \<open>Test bodies of the samples\<close>


definition testFailed :: "unit proc" where
  "testFailed = fail"

definition testEmpty :: "unit proc" where
  "testEmpty w = (Returns, w)"


text \<open>
  \<^verbatim>\<open>std::this_thread::sleep_for(d)\<close>, as \<^verbatim>\<open>test_wait_1s\<close> of \<^verbatim>\<open>samples/assertions.cpp\<close>
  calls it: the clock has advanced by \<open>d\<close> ticks when the call returns.
\<close>

definition sleep_for :: "int \<Rightarrow> 'u proc" where
  "sleep_for d w = (Returns, w\<lparr>clock := clock w + d\<rparr>)"

text \<open>A statement that throws an object of a class other than the two signals.\<close>

definition throw_other :: "string \<Rightarrow> 'u proc" where
  "throw_other s w = (Throws (OtherException s), w)"

text \<open>
  A test body of a class with one data member, a flag that is false at first. The first
  call takes 5 ticks, sets the flag and returns; every later call takes 7 ticks and then
  calls \<^verbatim>\<open>fail()\<close>.
\<close>

definition test_fails_second_time :: "bool proc" where
  "test_fails_second_time w =
     (if members w then seq (sleep_for 7) fail w
      else seq (sleep_for 5) (\<lambda>w'. (Returns, w'\<lparr>members := True\<rparr>)) w)"

subsection \<open>Properties of procedures used in the statements below\<close>



subsection \<open>Output streams and the text exporter\<close>

text \<open>
  What the exporters use of \<^verbatim>\<open>std::ostream\<close>: the characters written so far and the field
  width, which \<^verbatim>\<open>os.width(n)\<close> sets and every formatted insertion resets to 0 after
  padding its text on the left with spaces (the default fill and adjustment).
\<close>

record ostream =
  buf :: string
  width :: nat

definition pad :: "nat \<Rightarrow> string \<Rightarrow> string" where
  "pad n s = replicate (n - length s) (CHR '' '') @ s"

text \<open>\<^verbatim>\<open>os << s\<close> for a character string.\<close>

definition put_string :: "string \<Rightarrow> ostream \<Rightarrow> ostream" where
  "put_string s os = os\<lparr>buf := buf os @ pad (width os) s, width := 0\<rparr>"

text \<open>
  \<^verbatim>\<open>os << x\<close> for a \<^verbatim>\<open>double\<close>; \<open>fmt\<close> is the conversion of a \<^verbatim>\<open>double\<close> to its digits
  under the stream's floating-point format.
\<close>

definition put_double :: "('d \<Rightarrow> string) \<Rightarrow> 'd \<Rightarrow> ostream \<Rightarrow> ostream" where
  "put_double fmt x os = put_string (fmt x) os"

text \<open>\<^verbatim>\<open>os.width(n)\<close>\<close>

definition set_width :: "nat \<Rightarrow> ostream \<Rightarrow> ostream" where
  "set_width n os = os\<lparr>width := n\<rparr>"

text \<open>\<^verbatim>\<open>os << std::endl\<close>: an unformatted newline (the flush has no effect on the characters).\<close>

definition endl :: "ostream \<Rightarrow> ostream" where
  "endl os = os\<lparr>buf := buf os @ [CHR 0x0A]\<rparr>"

text \<open>
  The macros at the head of the file. \<open>colors\<close> is the condition of the \<^verbatim>\<open>#if\<close>:
  \<^verbatim>\<open>!defined(ENKI_STYLE_NOCOLORS) && !defined(__WIN32)\<close>.
\<close>

definition ENKI_STYLE_PASSED :: "bool \<Rightarrow> string" where
  "ENKI_STYLE_PASSED colors = (if colors then CHR 0x1B # ''[32m;'' else [])"

definition ENKI_STYLE_FAILED :: "bool \<Rightarrow> string" where
  "ENKI_STYLE_FAILED colors = (if colors then CHR 0x1B # ''[31m;'' else [])"

definition ENKI_STYLE_DEFAULT :: "bool \<Rightarrow> string" where
  "ENKI_STYLE_DEFAULT colors = (if colors then CHR 0x1B # ''[0m;'' else [])"

definition ENKI_STR_PASSED :: "bool \<Rightarrow> string" where
  "ENKI_STR_PASSED colors = (if colors then ''PASSED'' else ''passed'')"

definition ENKI_STR_FAILED :: "bool \<Rightarrow> string" where
  "ENKI_STR_FAILED colors = ''FAILED''"

text \<open>
  \<^verbatim>\<open>ResultExporter\<close> with the stream of \<^verbatim>\<open>StreamResultExporter\<close>: the flag fixed by the
  constructor and the output stream.
\<close>

record ResultExporter =
  export_test_durations :: bool
  os :: ostream

text \<open>\<^verbatim>\<open>TextStreamResultExporter(std::ostream& ostream, bool export_time = false)\<close>\<close>

definition TextStreamResultExporter :: "ostream \<Rightarrow> bool \<Rightarrow> ResultExporter" where
  "TextStreamResultExporter ostream export_time = \<lparr>export_test_durations = export_time, os = ostream\<rparr>"

text \<open>\<^verbatim>\<open>bool is_duration_exported() const { return export_test_durations; }\<close>\<close>

definition is_duration_exported :: "ResultExporter \<Rightarrow> bool" where
  "is_duration_exported ex = export_test_durations ex"

text \<open>\<^verbatim>\<open>TextStreamResultExporter::export_result(TestData& data)\<close>\<close>

definition export_result ::
  "bool \<Rightarrow> ('d \<Rightarrow> string) \<Rightarrow> ResultExporter \<Rightarrow> ('u, 'd) TestData \<Rightarrow> ResultExporter" where
  "export_result colors fmt ex td =
     (let os0 = os ex;
          os1 = put_string ''] ''
                  (put_string
                     (if passed td
                      then ENKI_STYLE_PASSED colors @ ENKI_STR_PASSED colors @ ENKI_STYLE_DEFAULT colors
                      else ENKI_STYLE_FAILED colors @ ENKI_STR_FAILED colors @ ENKI_STYLE_DEFAULT colors)
                     (put_string ''['' os0));
          os2 = (if is_duration_exported ex
                 then put_string ''s '' (put_double fmt (time td) (set_width 8 os1))
                 else os1);
          os3 = endl (put_string (name td) os2)
      in ex\<lparr>os := os3\<rparr>)"

text \<open>
  \<^verbatim>\<open>ResultExporter::export_results(TestCase<T>& tcase)\<close>: every record of
  \<^verbatim>\<open>tcase.get_data()\<close> in order, through \<^verbatim>\<open>export_result\<close>.
\<close>

definition export_results ::
  "bool \<Rightarrow> ('d \<Rightarrow> string) \<Rightarrow> ResultExporter \<Rightarrow> ('u, 'd) TestCase \<Rightarrow> ResultExporter" where
  "export_results colors fmt ex tcase = foldl (export_result colors fmt) ex (get_data tcase)"

subsection \<open>The line format of the specification\<close>

text \<open>
  The token between the brackets, as the macros spell it: \<^verbatim>\<open>PASSED\<close> or \<^verbatim>\<open>FAILED\<close> wrapped in
  colour codes, or \<^verbatim>\<open>passed\<close> or \<^verbatim>\<open>FAILED\<close> without them.
\<close>

definition result_token :: "bool \<Rightarrow> bool \<Rightarrow> string" where
  "result_token colors p =
     (if p then ENKI_STYLE_PASSED colors @ ENKI_STR_PASSED colors @ ENKI_STYLE_DEFAULT colors
      else ENKI_STYLE_FAILED colors @ ENKI_STR_FAILED colors @ ENKI_STYLE_DEFAULT colors)"

text \<open>
  The line that the specification gives for one record,
  \<^verbatim>\<open>[<PASSED|FAILED>] [<duration>s ]<name>\n\<close>, with the duration in a field of width 8.
\<close>

definition text_line :: "bool \<Rightarrow> ('d \<Rightarrow> string) \<Rightarrow> bool \<Rightarrow> ('u, 'd) TestData \<Rightarrow> string" where
  "text_line colors fmt export_durations td =
     ''['' @ result_token colors (passed td) @ ''] ''
     @ (if export_durations then pad 8 (fmt (time td)) @ ''s '' else [])
     @ name td @ [CHR 0x0A]"

section \<open>The engine object as a test body reaches it\<close>

text \<open>
  \<^verbatim>\<open>run()\<close> calls a test function on the engine object itself: \<^verbatim>\<open>(cls->*func)()\<close> with
  \<^verbatim>\<open>cls = static_cast<T*>(this)\<close>. The members \<^verbatim>\<open>add()\<close> and \<^verbatim>\<open>get_data()\<close> are public, the
  latter returns a reference to the list, and the loop compares the iterator with
  \<^verbatim>\<open>data.end()\<close> at every step. A test body can therefore change the list that \<^verbatim>\<open>run()\<close> is
  walking. The model of this section keeps that: a hook or a test body is a function on the
  whole object, the list included.
\<close>

subsection \<open>Records, the list and its iterators\<close>

text \<open>
  \<^verbatim>\<open>TestData\<close> again. The field \<open>func'\<close> is the pointer to a member function of \<^verbatim>\<open>T\<close>: a
  value of a type \<open>'f\<close> of names, which the class resolves to code.
\<close>

record ('f, 'd) TestData' =
  func' :: 'f
  name' :: string
  passed' :: bool
  time' :: 'd

text \<open>
  The object. A \<^verbatim>\<open>std::list\<close> is a sequence of nodes, and an iterator is the address of a
  node: it stays valid as long as that node is in the list, whatever is inserted or erased
  around it. \<open>data'\<close> holds each element with the address of its node; \<open>allocated\<close> counts
  the nodes created so far, so that a new node never gets the address of an earlier one.
\<close>

record ('f, 'u, 'd) TestCase' =
  data' :: "(nat \<times> ('f, 'd) TestData') list"
  allocated :: nat
  members' :: 'u
  clock' :: int

type_synonym ('f, 'u, 'd) eproc = "('f, 'u, 'd) TestCase' \<Rightarrow> completion \<times> ('f, 'u, 'd) TestCase'"

text \<open>
  The code of the subclass \<^verbatim>\<open>T\<close>: its two hooks and the body of each member function that
  can be registered as a test.
\<close>

record ('f, 'u, 'd) test_class =
  setup' :: "('f, 'u, 'd) eproc"
  cleanup' :: "('f, 'u, 'd) eproc"
  test_body :: "'f \<Rightarrow> ('f, 'u, 'd) eproc"

text \<open>A freshly constructed object: an empty list.\<close>

definition new_TestCase' :: "'u \<Rightarrow> int \<Rightarrow> ('f, 'u, 'd) TestCase'" where
  "new_TestCase' u t = \<lparr>data' = [], allocated = 0, members' = u, clock' = t\<rparr>"

text \<open>\<^verbatim>\<open>add\<close>: \<^verbatim>\<open>data.push_back({test, name, false, 0.0})\<close>, in a new node at the end.\<close>

definition add' :: "'f \<Rightarrow> string \<Rightarrow> ('f, 'u, 'd::zero) TestCase' \<Rightarrow> ('f, 'u, 'd) TestCase'" where
  "add' test nm e =
     e\<lparr>data' := data' e @ [(allocated e, \<lparr>func' = test, name' = nm, passed' = False, time' = 0\<rparr>)],
       allocated := Suc (allocated e)\<rparr>"

text \<open>
  An iterator is \<open>Some\<close> address, or \<open>None\<close> for \<^verbatim>\<open>data.end()\<close>. \<open>begin_it\<close> is
  \<^verbatim>\<open>data.begin()\<close>; \<open>next_it\<close> is \<^verbatim>\<open>it++\<close>, which has no defined result (the outer \<open>None\<close>) when
  the node of \<open>it\<close> is no longer in the list; \<open>write_node\<close> is an assignment through \<^verbatim>\<open>*it\<close>.
\<close>

definition begin_it :: "(nat \<times> 'x) list \<Rightarrow> nat option" where
  "begin_it ds = (case ds of [] \<Rightarrow> None | (a, x) # rest \<Rightarrow> Some a)"

fun next_it :: "nat \<Rightarrow> (nat \<times> 'x) list \<Rightarrow> nat option option" where
  "next_it a [] = None"
| "next_it a ((b, x) # rest) = (if b = a then Some (begin_it rest) else next_it a rest)"

definition write_node :: "nat \<Rightarrow> ('x \<Rightarrow> 'x) \<Rightarrow> (nat \<times> 'x) list \<Rightarrow> (nat \<times> 'x) list" where
  "write_node a f ds = map (\<lambda>(b, x). if b = a then (b, f x) else (b, x)) ds"

subsection \<open>\<^verbatim>\<open>run()\<close> on the object\<close>

text \<open>
  The ways in which the model of \<^verbatim>\<open>run()\<close> stops without returning a value: an exception
  leaves it; the iterator is used after a test body has removed its node (undefined
  behaviour in C++); or the loop has not reached \<^verbatim>\<open>data.end()\<close> after the number of tests it
  was followed for (a test body can register tests without end).
\<close>

datatype abort = Uncaught exn | InvalidIterator | OutOfFuel

text \<open>
  The body of the \<^verbatim>\<open>for\<close> loop at the node \<open>a\<close>, whose element was \<open>td\<close> when the iteration
  began: \<^verbatim>\<open>func = (*it).func\<close> is read before the call, the writes through \<^verbatim>\<open>*it\<close> come after
  it, in the \<^verbatim>\<open>try\<close> block or in a handler.
\<close>

definition run_body' ::
  "(int \<Rightarrow> 'd) \<Rightarrow> ('f, 'u, 'd) test_class \<Rightarrow> nat \<Rightarrow> ('f, 'd) TestData' \<Rightarrow> bool \<Rightarrow> ('f, 'u, 'd) TestCase'
     \<Rightarrow> abort option \<times> bool \<times> ('f, 'u, 'd) TestCase'" where
  "run_body' secs cls a td err e =
     (let t1 = clock' e in
      case test_body cls (func' td) e of
        (Returns, e1) \<Rightarrow>
          (let t2 = clock' e1 in
           if a \<in> set (map fst (data' e1))
           then (None, err,
                 e1\<lparr>data' := write_node a (\<lambda>r. r\<lparr>time' := secs (t2 - t1), passed' := True\<rparr>) (data' e1)\<rparr>)
           else (Some InvalidIterator, err, e1))
      | (Throws TestFailedException, e1) \<Rightarrow>
          (if a \<in> set (map fst (data' e1))
           then (None, True, e1\<lparr>data' := write_node a (\<lambda>r. r\<lparr>passed' := False\<rparr>) (data' e1)\<rparr>)
           else (Some InvalidIterator, err, e1))
      | (Throws TestPassedException, e1) \<Rightarrow>
          (if a \<in> set (map fst (data' e1))
           then (None, err, e1\<lparr>data' := write_node a (\<lambda>r. r\<lparr>passed' := True\<rparr>) (data' e1)\<rparr>)
           else (Some InvalidIterator, err, e1))
      | (Throws (OtherException s), e1) \<Rightarrow> (Some (Uncaught (OtherException s)), err, e1))"

text \<open>
  The \<^verbatim>\<open>for\<close> loop from the iterator \<open>it\<close>, followed for at most \<open>n\<close> tests. The list is read
  anew at every step, so nodes that a test body appends are visited. The history of calls
  is kept beside the object, where no test body reaches it.
\<close>

fun run_loop' ::
  "nat \<Rightarrow> (int \<Rightarrow> 'd) \<Rightarrow> ('f, 'u, 'd) test_class \<Rightarrow> nat option \<Rightarrow> bool \<Rightarrow> ('f, 'u, 'd) TestCase' \<Rightarrow> call list
     \<Rightarrow> (abort + bool) \<times> ('f, 'u, 'd) TestCase' \<times> call list" where
  "run_loop' n secs cls None err e log = (Inr err, e, log)"
| "run_loop' 0 secs cls (Some a) err e log = (Inl OutOfFuel, e, log)"
| "run_loop' (Suc n) secs cls (Some a) err e log =
     (case map_of (data' e) a of
        None \<Rightarrow> (Inl InvalidIterator, e, log)
      | Some td \<Rightarrow>
          (case run_body' secs cls a td err e of
             (Some x, err', e') \<Rightarrow> (Inl x, e', log @ [Test (name' td)])
           | (None, err', e') \<Rightarrow>
               (case next_it a (data' e') of
                  None \<Rightarrow> (Inl InvalidIterator, e', log @ [Test (name' td)])
                | Some it' \<Rightarrow> run_loop' n secs cls it' err' e' (log @ [Test (name' td)]))))"

text \<open>\<^verbatim>\<open>bool run()\<close> on the object: the value or the way it stopped, the object, the calls made.\<close>

definition run' ::
  "nat \<Rightarrow> (int \<Rightarrow> 'd) \<Rightarrow> ('f, 'u, 'd) test_class \<Rightarrow> ('f, 'u, 'd) TestCase'
     \<Rightarrow> (abort + bool) \<times> ('f, 'u, 'd) TestCase' \<times> call list" where
  "run' n secs cls e =
     (let err = False in
      case setup' cls e of
        (Throws x, e1) \<Rightarrow> (Inl (Uncaught x), e1, [Setup])
      | (Returns, e1) \<Rightarrow>
          (case run_loop' n secs cls (begin_it (data' e1)) err e1 [Setup] of
             (Inl x, e2, log) \<Rightarrow> (Inl x, e2, log)
           | (Inr err', e2, log) \<Rightarrow>
               (case cleanup' cls e2 of
                  (Throws x, e3) \<Rightarrow> (Inl (Uncaught x), e3, log @ [Cleanup])
                | (Returns, e3) \<Rightarrow> (Inr err', e3, log @ [Cleanup]))))"

subsection \<open>Notions used in the statements about the object\<close>

text \<open>A hook or test body that leaves the list as it finds it, in whatever state it is called.\<close>

definition keeps_list :: "('f, 'u, 'd) eproc \<Rightarrow> bool" where
  "keeps_list p \<longleftrightarrow> (\<forall>e. data' (snd (p e)) = data' e)"

text \<open>Two elements in the same node that differ in \<open>passed'\<close> and \<open>time'\<close> at most.\<close>

definition same_but_outcome :: "nat \<times> ('f, 'd) TestData' \<Rightarrow> nat \<times> ('f, 'd) TestData' \<Rightarrow> bool" where
  "same_but_outcome x y \<longleftrightarrow> fst y = fst x \<and> (\<exists>p t. snd y = (snd x)\<lparr>passed' := p, time' := t\<rparr>)"

text \<open>A list as \<^verbatim>\<open>std::list\<close> keeps it: no two nodes at one address, every address allocated.\<close>

definition valid_list :: "('f, 'u, 'd) TestCase' \<Rightarrow> bool" where
  "valid_list e \<longleftrightarrow>
     distinct (map fst (data' e)) \<and> (\<forall>a\<in>set (map fst (data' e)). a < allocated e)"

text \<open>A sequence of calls of \<^verbatim>\<open>add\<close>, first to last.\<close>

fun add_all' :: "('f \<times> string) list \<Rightarrow> ('f, 'u, 'd::zero) TestCase' \<Rightarrow> ('f, 'u, 'd) TestCase'" where
  "add_all' [] e = e"
| "add_all' ((test, nm) # regs) e = add_all' regs (add' test nm e)"

subsection \<open>Sample classes on the object\<close>

text \<open>\<^verbatim>\<open>pass()\<close>, \<^verbatim>\<open>fail()\<close> and the empty hook, as functions on the object.\<close>

definition pass' :: "('f, 'u, 'd) eproc" where
  "pass' e = (Throws TestPassedException, e)"

definition fail' :: "('f, 'u, 'd) eproc" where
  "fail' e = (Throws TestFailedException, e)"

definition default_hook' :: "('f, 'u, 'd) eproc" where
  "default_hook' e = (Returns, e)"

text \<open>\<^verbatim>\<open>SkeletonTestCase\<close> of \<^verbatim>\<open>samples/skeleton.cpp\<close>: its three test functions and its constructor.\<close>

datatype skeleton_test = TestPass | TestFailed | TestEmpty

definition SkeletonTestCase_class :: "(skeleton_test, unit, 'd) test_class" where
  "SkeletonTestCase_class =
     \<lparr>setup' = default_hook', cleanup' = default_hook',
      test_body = (\<lambda>f. case f of TestPass \<Rightarrow> pass' | TestFailed \<Rightarrow> fail' | TestEmpty \<Rightarrow> (\<lambda>e. (Returns, e)))\<rparr>"

definition SkeletonTestCase' :: "(skeleton_test, unit, 'd::zero) TestCase'" where
  "SkeletonTestCase' =
     add_all' [(TestPass, ''Test pass 1''), (TestFailed, ''Test fail 1''),
               (TestPass, ''Test pass 2''), (TestEmpty, ''Test empty'')]
       (new_TestCase' () 0)"

text \<open>
  A class whose test functions use the engine's public members on their own object:
  \<open>Grow\<close> calls \<^verbatim>\<open>add(&T::added, "added")\<close>, \<open>DropLast\<close> calls \<^verbatim>\<open>get_data().pop_back()\<close>, \<open>Boom\<close>
  throws an exception that is neither signal, \<open>Added\<close> and \<open>Plain\<close> do nothing.
\<close>

datatype meddling_test = Grow | Added | DropLast | Boom | Plain

definition Meddling_class :: "(meddling_test, unit, 'd::zero) test_class" where
  "Meddling_class =
     \<lparr>setup' = default_hook', cleanup' = default_hook',
      test_body = (\<lambda>f. case f of
                   Grow \<Rightarrow> (\<lambda>e. (Returns, add' Added ''added'' e))
                 | Added \<Rightarrow> (\<lambda>e. (Returns, e))
                 | DropLast \<Rightarrow> (\<lambda>e. (Returns, e\<lparr>data' := butlast (data' e)\<rparr>))
                 | Boom \<Rightarrow> (\<lambda>e. (Throws (OtherException ''boom''), e))
                 | Plain \<Rightarrow> (\<lambda>e. (Returns, e)))\<rparr>"

subsection \<open>Test bodies that leave the list alone\<close>

text \<open>
  The first model of \<^verbatim>\<open>run()\<close>, with \<open>run_body\<close>, \<open>run_loop\<close> and \<open>run\<close>, is this one restricted
  to hooks and test bodies that use the data members of \<^verbatim>\<open>T\<close> and the clock only. Such a
  procedure acts on the object through \<open>lift_proc\<close>; \<open>old_of\<close> reads an object as a state of
  the first model, and \<open>result_agrees\<close> relates the two kinds of result.
\<close>

definition world_of :: "('f, 'u, 'd) TestCase' \<Rightarrow> 'u world" where
  "world_of e = \<lparr>members = members' e, clock = clock' e\<rparr>"

definition lift_proc :: "'u proc \<Rightarrow> ('f, 'u, 'd) eproc" where
  "lift_proc p e = (case p (world_of e) of (c, w) \<Rightarrow> (c, e\<lparr>members' := members w, clock' := clock w\<rparr>))"

definition lifted_class :: "'u proc \<Rightarrow> 'u proc \<Rightarrow> ('f \<Rightarrow> 'u proc) \<Rightarrow> ('f, 'u, 'd) test_class" where
  "lifted_class s c body = \<lparr>setup' = lift_proc s, cleanup' = lift_proc c, test_body = (\<lambda>f. lift_proc (body f))\<rparr>"

definition old_td :: "('f \<Rightarrow> 'u proc) \<Rightarrow> ('f, 'd) TestData' \<Rightarrow> ('u, 'd) TestData" where
  "old_td body td = \<lparr>func = body (func' td), name = name' td, passed = passed' td, time = time' td\<rparr>"

definition old_of ::
  "'u proc \<Rightarrow> 'u proc \<Rightarrow> ('f \<Rightarrow> 'u proc) \<Rightarrow> ('f, 'u, 'd) TestCase' \<Rightarrow> call list \<Rightarrow> ('u, 'd) TestCase" where
  "old_of s c body e log =
     \<lparr>data = map (\<lambda>x. old_td body (snd x)) (data' e), setup_hook = s, cleanup_hook = c,
      self = world_of e, calls = log\<rparr>"

definition result_agrees :: "abort + bool \<Rightarrow> exn + bool \<Rightarrow> bool" where
  "result_agrees r' r \<longleftrightarrow>
     (case r' of Inr b \<Rightarrow> r = Inr b | Inl (Uncaught x) \<Rightarrow> r = Inl x | Inl InvalidIterator \<Rightarrow> False
      | Inl OutOfFuel \<Rightarrow> False)"

section \<open>Properties of the run loop\<close>

subsection \<open>One iteration\<close>

lemma run_body_Returns:
  "func td w = (Returns, w') \<Longrightarrow>
   run_body secs td err w = (None, td\<lparr>time := secs (clock w' - clock w), passed := True\<rparr>, err, w')"
  by (simp add: run_body_def Let_def)

lemma run_body_Failed:
  "func td w = (Throws TestFailedException, w') \<Longrightarrow>
   run_body secs td err w = (None, td\<lparr>passed := False\<rparr>, True, w')"
  by (simp add: run_body_def)

lemma run_body_Passed:
  "func td w = (Throws TestPassedException, w') \<Longrightarrow>
   run_body secs td err w = (None, td\<lparr>passed := True\<rparr>, err, w')"
  by (simp add: run_body_def)

lemma run_body_Other:
  "func td w = (Throws (OtherException s), w') \<Longrightarrow>
   run_body secs td err w = (Some (OtherException s), td, err, w')"
  by (simp add: run_body_def)






lemma run_loop_Cons_None:
  "run_body secs td err w = (None, td', err', w') \<Longrightarrow>
   run_loop secs rest err' w' (log @ [Test (name td)]) = (r, rest', w'', log') \<Longrightarrow>
   run_loop secs (td # rest) err w log = (r, td' # rest', w'', log')"
  by simp

lemma run_loop_Cons_Some:
  "run_body secs td err w = (Some e, td', err', w') \<Longrightarrow>
   run_loop secs (td # rest) err w log = (Inl e, td' # rest, w', log @ [Test (name td)])"
  by simp








lemma run_data_setup_throws:
  "fst (setup_hook tc (self tc)) = Throws e \<Longrightarrow> data (snd (run secs tc)) = data tc"
proof -
  assume a: "fst (setup_hook tc (self tc)) = Throws e"
  obtain w0 where s: "setup_hook tc (self tc) = (Throws e, w0)"
    using a by (cases "setup_hook tc (self tc)") auto
  then show ?thesis by (simp add: run_def)
qed

subsection \<open>The whole run\<close>




section \<open>The claims\<close>








text \<open>
  C3. A test that works for 5 ticks and then calls \<^verbatim>\<open>fail()\<close>: the record is marked failed and
  the clock has moved by 5 ticks, but the assignment to \<open>time\<close> sits in the \<^verbatim>\<open>try\<close> block after
  the call and is skipped by the exception, so \<open>time\<close> still holds the 0 that \<^verbatim>\<open>add\<close> stored.
\<close>

theorem failed_test_duration_not_recorded:
  "run (\<lambda>n. n)
     (add (seq (sleep_for 5) fail) ''slow failure''
        (new_TestCase \<lparr>members = (), clock = 0\<rparr> :: (unit, int) TestCase))
   = (Inr True,
      \<lparr>data = [\<lparr>func = seq (sleep_for 5) fail, name = ''slow failure'', passed = False, time = 0\<rparr>],
       setup_hook = default_hook, cleanup_hook = default_hook,
       self = \<lparr>members = (), clock = 5\<rparr>,
       calls = [Setup, Test ''slow failure'', Cleanup]\<rparr>)"
  by (simp add: run_def run_body_def add_def new_TestCase_def default_hook_def seq_def
      sleep_for_def fail_def)

text \<open>
  C6. The test \<open>test_fails_second_time\<close>, run twice. After the first run its record is
  passed with a duration of 5 ticks. The second run takes 7 ticks and fails: the list still
  has one record and \<open>passed\<close> is overwritten with false, but \<open>time\<close> is not written on this
  path and keeps the 5 of the first run.
\<close>

theorem rerun_keeps_stale_duration:
  "snd (run (\<lambda>n. n)
     (add test_fails_second_time ''t''
        (new_TestCase \<lparr>members = False, clock = 0\<rparr> :: (bool, int) TestCase)))
   = \<lparr>data = [\<lparr>func = test_fails_second_time, name = ''t'', passed = True, time = 5\<rparr>],
      setup_hook = default_hook, cleanup_hook = default_hook,
      self = \<lparr>members = True, clock = 5\<rparr>,
      calls = [Setup, Test ''t'', Cleanup]\<rparr>
   \<and> snd (run (\<lambda>n. n) (snd (run (\<lambda>n. n)
     (add test_fails_second_time ''t''
        (new_TestCase \<lparr>members = False, clock = 0\<rparr> :: (bool, int) TestCase)))))
   = \<lparr>data = [\<lparr>func = test_fails_second_time, name = ''t'', passed = False, time = 5\<rparr>],
      setup_hook = default_hook, cleanup_hook = default_hook,
      self = \<lparr>members = True, clock = 12\<rparr>,
      calls = [Setup, Test ''t'', Cleanup, Setup, Test ''t'', Cleanup]\<rparr>"
proof -
  have one: "snd (run (\<lambda>n. n)
     (add test_fails_second_time ''t''
        (new_TestCase \<lparr>members = False, clock = 0\<rparr> :: (bool, int) TestCase)))
   = \<lparr>data = [\<lparr>func = test_fails_second_time, name = ''t'', passed = True, time = 5\<rparr>],
      setup_hook = default_hook, cleanup_hook = default_hook,
      self = \<lparr>members = True, clock = 5\<rparr>,
      calls = [Setup, Test ''t'', Cleanup]\<rparr>"
    by (simp add: run_def run_body_def add_def new_TestCase_def default_hook_def seq_def
      sleep_for_def fail_def test_fails_second_time_def)
  have two: "snd (run (\<lambda>n. n)
      (\<lparr>data = [\<lparr>func = test_fails_second_time, name = ''t'', passed = True, time = 5\<rparr>],
      setup_hook = default_hook, cleanup_hook = default_hook,
      self = \<lparr>members = True, clock = 5\<rparr>,
      calls = [Setup, Test ''t'', Cleanup]\<rparr> :: (bool, int) TestCase))
   = \<lparr>data = [\<lparr>func = test_fails_second_time, name = ''t'', passed = False, time = 5\<rparr>],
      setup_hook = default_hook, cleanup_hook = default_hook,
      self = \<lparr>members = True, clock = 12\<rparr>,
      calls = [Setup, Test ''t'', Cleanup, Setup, Test ''t'', Cleanup]\<rparr>"
    by (simp add: run_def run_body_def default_hook_def seq_def
      sleep_for_def fail_def test_fails_second_time_def)
  show ?thesis unfolding one two by simp
qed

text \<open>
  C7. \<^verbatim>\<open>assert_exception(f)\<close> calls \<open>f\<close>. It throws \<^verbatim>\<open>TestFailedException\<close> if and only if \<open>f\<close>
  throws anything at all, a \<^verbatim>\<open>TestFailedException\<close> included, and it returns normally if and
  only if \<open>f\<close> does; it throws nothing else, and the state is the one \<open>f\<close> left.
\<close>

theorem assert_exception_fails_iff_func_throws:
  "(fst (assert_exception f w) = Throws TestFailedException \<longleftrightarrow> (\<exists>e. fst (f w) = Throws e))
   \<and> (fst (assert_exception f w) = Returns \<longleftrightarrow> fst (f w) = Returns)
   \<and> (fst (f w) = Throws TestFailedException \<longrightarrow> fst (assert_exception f w) = Throws TestFailedException)
   \<and> (\<forall>e. fst (assert_exception f w) = Throws e \<longrightarrow> e = TestFailedException)
   \<and> snd (assert_exception f w) = snd (f w)"
proof -
  obtain c w' where fw: "f w = (c, w')" by (cases "f w")
  show ?thesis
  proof (cases c)
    case Returns
    with fw show ?thesis by (simp add: assert_exception_def)
  next
    case (Throws e)
    with fw show ?thesis by (simp add: assert_exception_def)
  qed
qed

theorem assert_exception_fails_iff_func_throws_witness:
  "fst (fail \<lparr>members = (), clock = 0\<rparr>) = Throws TestFailedException
   \<and> fst (assert_exception fail \<lparr>members = (), clock = 0\<rparr>) = Throws TestFailedException
   \<and> fst (assert_exception (throw_other ''std::exception'') \<lparr>members = (), clock = 0\<rparr>)
       = Throws TestFailedException
   \<and> fst (assert_exception pass \<lparr>members = (), clock = 0\<rparr>) = Throws TestFailedException
   \<and> fst (assert_exception testEmpty \<lparr>members = (), clock = 0\<rparr>) = Returns"
proof -
  let ?w = "\<lparr>members = (), clock = 0\<rparr>"
  have h: "fst (fail ?w) = Throws TestFailedException" by (simp add: fail_def)
  from assert_exception_fails_iff_func_throws [of fail ?w] h
  have a: "fst (assert_exception fail ?w) = Throws TestFailedException" by blast
  have "\<exists>e. fst (throw_other ''std::exception'' ?w) = Throws e" by (simp add: throw_other_def)
  with assert_exception_fails_iff_func_throws [of "throw_other ''std::exception''" ?w]
  have b: "fst (assert_exception (throw_other ''std::exception'') ?w) = Throws TestFailedException"
    by blast
  have "\<exists>e. fst (pass ?w) = Throws e" by (simp add: pass_def)
  with assert_exception_fails_iff_func_throws [of pass ?w]
  have c: "fst (assert_exception pass ?w) = Throws TestFailedException" by blast
  have "fst (testEmpty ?w) = Returns" by (simp add: testEmpty_def)
  with assert_exception_fails_iff_func_throws [of testEmpty ?w]
  have d: "fst (assert_exception testEmpty ?w) = Returns" by blast
  show ?thesis by (intro conjI h a b c d)
qed

subsection \<open>Arrays\<close>

lemma array_equals_loop_same_length:
  "length a = n \<Longrightarrow> length b = n \<Longrightarrow> t \<le> n \<Longrightarrow>
   array_equals_loop a n b t =
     Some (if \<exists>i. t \<le> i \<and> i < n \<and> a ! i \<noteq> b ! i then Throws TestFailedException else Returns)"
proof (induction a n b t rule: array_equals_loop.induct)
  case (1 a len_a b t)
  show ?case
  proof (cases "t < len_a")
    case False
    then show ?thesis by (subst array_equals_loop.simps) auto
  next
    case True
    note lt = this
    show ?thesis
    proof (cases "a ! t \<noteq> b ! t")
      case True
      with lt "1.prems" show ?thesis by (subst array_equals_loop.simps) auto
    next
      case False
      with lt "1.prems" have ih: "array_equals_loop a len_a b (Suc t) =
        Some (if \<exists>i. Suc t \<le> i \<and> i < len_a \<and> a ! i \<noteq> b ! i then Throws TestFailedException else Returns)"
        by (intro "1.IH") auto
      have "(\<exists>i. t \<le> i \<and> i < len_a \<and> a ! i \<noteq> b ! i) = (\<exists>i. Suc t \<le> i \<and> i < len_a \<and> a ! i \<noteq> b ! i)"
        using False by (metis Suc_leD Suc_leI le_neq_implies_less)
      with ih lt False "1.prems" show ?thesis by (subst array_equals_loop.simps) simp
    qed
  qed
qed

lemma assert_array_equals_lengths:
  "assert_array_equals x (length x) y (length y)
     = Some (if length x \<noteq> length y \<or> (\<exists>i<length x. x ! i \<noteq> y ! i)
             then Throws TestFailedException else Returns)"
proof (cases "length x = length y")
  case True
  have "array_equals_loop x (length x) y 0 =
    Some (if \<exists>i. 0 \<le> i \<and> i < length x \<and> x ! i \<noteq> y ! i then Throws TestFailedException else Returns)"
    by (rule array_equals_loop_same_length) (simp_all add: True)
  then have "array_equals_loop x (length x) y 0 =
    Some (if \<exists>i<length x. x ! i \<noteq> y ! i then Throws TestFailedException else Returns)"
    by simp
  moreover have "assert_array_equals x (length x) y (length y) = array_equals_loop x (length x) y 0"
    by (simp add: assert_array_equals_def assert_def True)
  ultimately show ?thesis using True by simp
next
  case False
  then show ?thesis by (simp add: assert_array_equals_def assert_def)
qed

lemma assert_array_equals_Returns_iff:
  "(assert_array_equals x (length x) y (length y) = Some Returns) = (x = y)"
  unfolding assert_array_equals_lengths by (auto simp: list_eq_iff_nth_eq)

text \<open>
  C8. Called with two arrays and their lengths, \<^verbatim>\<open>assert_array_equals\<close> throws
  \<^verbatim>\<open>TestFailedException\<close> if and only if the lengths differ or the elements at some index
  differ, and returns normally otherwise, that is, exactly when the two sequences are equal.
  Two empty arrays pass; \<open>[1,2,3,4,5]\<close> against itself passes and against \<open>[1,2,3,4,6]\<close> fails.
\<close>

theorem assert_array_equals_fails_iff_different:
  "assert_array_equals a (length a) b (length b)
     = Some (if length a \<noteq> length b \<or> (\<exists>i<length a. a ! i \<noteq> b ! i)
             then Throws TestFailedException else Returns)
   \<and> (assert_array_equals a (length a) b (length b) = Some Returns \<longleftrightarrow> a = b)
   \<and> assert_array_equals ([] :: 'a list) 0 [] 0 = Some Returns
   \<and> assert_array_equals [1, 2, 3, 4, 5 :: int] 5 [1, 2, 3, 4, 5] 5 = Some Returns
   \<and> assert_array_equals [1, 2, 3, 4, 5 :: int] 5 [1, 2, 3, 4, 6] 5 = Some (Throws TestFailedException)"
proof -
  have p1: "assert_array_equals ([] :: 'a list) 0 [] 0 = Some Returns"
    using assert_array_equals_Returns_iff [of "[] :: 'a list" "[]"] by simp
  have p2: "assert_array_equals [1, 2, 3, 4, 5 :: int] 5 [1, 2, 3, 4, 5] 5 = Some Returns"
    using assert_array_equals_Returns_iff [of "[1, 2, 3, 4, 5 :: int]" "[1, 2, 3, 4, 5]"]
    by (simp add: eval_nat_numeral)
  have "assert_array_equals [1, 2, 3, 4, 5 :: int] 5 [1, 2, 3, 4, 6] 5 \<noteq> Some Returns"
    using assert_array_equals_Returns_iff [of "[1, 2, 3, 4, 5 :: int]" "[1, 2, 3, 4, 6]"]
    by (simp add: eval_nat_numeral)
  moreover have "assert_array_equals [1, 2, 3, 4, 5 :: int] 5 [1, 2, 3, 4, 6] 5 = Some Returns
    \<or> assert_array_equals [1, 2, 3, 4, 5 :: int] 5 [1, 2, 3, 4, 6] 5 = Some (Throws TestFailedException)"
    using assert_array_equals_lengths [of "[1, 2, 3, 4, 5 :: int]" "[1, 2, 3, 4, 6]"]
    by (simp add: eval_nat_numeral split: if_splits)
  ultimately have p3: "assert_array_equals [1, 2, 3, 4, 5 :: int] 5 [1, 2, 3, 4, 6] 5 = Some (Throws TestFailedException)"
    by blast
  show ?thesis
    by (intro conjI assert_array_equals_lengths assert_array_equals_Returns_iff p1 p2 p3)
qed

theorem assert_array_equals_fails_iff_different_witness:
  "length [10, 20, 30 :: int] \<noteq> length [10, 20 :: int]
   \<and> assert_array_equals [10, 20, 30 :: int] (length [10, 20, 30 :: int]) [10, 20] (length [10, 20 :: int])
       = Some (Throws TestFailedException)
   \<and> assert_array_equals ''abc'' (length ''abc'') ''abc'' (length ''abc'') = Some Returns"
proof -
  have h: "length [10, 20, 30 :: int] \<noteq> length [10, 20 :: int]" by simp
  from assert_array_equals_fails_iff_different [of "[10, 20, 30 :: int]" "[10, 20]", THEN conjunct1] h
  have a: "assert_array_equals [10, 20, 30 :: int] (length [10, 20, 30 :: int]) [10, 20] (length [10, 20 :: int])
       = Some (Throws TestFailedException)" by simp
  from assert_array_equals_fails_iff_different [of "''abc''" "''abc''", THEN conjunct2, THEN conjunct1]
  have b: "assert_array_equals ''abc'' (length ''abc'') ''abc'' (length ''abc'') = Some Returns" by simp
  show ?thesis by (intro conjI h a b)
qed

subsection \<open>The text exporter\<close>

lemma export_result_buf:
  "buf (os (export_result colors fmt ex td))
     = buf (os ex) @ pad (width (os ex)) ''[''
       @ result_token colors (passed td) @ ''] ''
       @ (if export_test_durations ex then pad 8 (fmt (time td)) @ ''s '' else [])
       @ name td @ [CHR 0x0A]"
  by (simp add: export_result_def put_string_def put_double_def set_width_def endl_def
      is_duration_exported_def result_token_def pad_def Let_def)

lemma export_result_width: "width (os (export_result colors fmt ex td)) = 0"
  by (simp add: export_result_def put_string_def put_double_def set_width_def endl_def
      is_duration_exported_def Let_def)

lemma export_result_flag:
  "export_test_durations (export_result colors fmt ex td) = export_test_durations ex"
  by (simp add: export_result_def Let_def)

lemma export_result_line:
  "width (os ex) = 0 \<Longrightarrow>
   buf (os (export_result colors fmt ex td))
     = buf (os ex) @ text_line colors fmt (export_test_durations ex) td"
  by (simp add: export_result_buf text_line_def pad_def)

lemma foldl_export_result:
  "width (os ex) = 0 \<Longrightarrow>
   buf (os (foldl (export_result colors fmt) ex ds))
     = buf (os ex) @ concat (map (text_line colors fmt (export_test_durations ex)) ds)"
proof (induction ds arbitrary: ex)
  case Nil
  show ?case by simp
next
  case (Cons td ds)
  from Cons.IH [of "export_result colors fmt ex td"] Cons.prems
  show ?case
    by (simp add: export_result_width export_result_flag export_result_line)
qed

text \<open>
  C9. On a stream whose field width is 0, as a stream is unless the caller changes it, a
  text exporter constructed with \<open>export_time = False\<close> appends for a record the line
  \<^verbatim>\<open>[token] name\<close>, which has no duration field and does not depend on the record's
  \<open>time\<close>; constructed with \<open>export_time = True\<close> it appends \<^verbatim>\<open>[token] duration\<close>\<^verbatim>\<open>s name\<close>, with
  the record's duration once, in a field of width 8 followed by \<^verbatim>\<open>s\<close>. \<^verbatim>\<open>export_results\<close>
  appends one such line for each record, in order.
\<close>

theorem text_line_has_duration_iff_enabled:
  assumes "width ostream = 0"
  shows "buf (os (export_result colors fmt (TextStreamResultExporter ostream False) td))
        = buf ostream @ ''['' @ result_token colors (passed td) @ ''] '' @ name td @ [CHR 0x0A]
    \<and> buf (os (export_result colors fmt (TextStreamResultExporter ostream True) td))
        = buf ostream @ ''['' @ result_token colors (passed td) @ ''] ''
          @ pad 8 (fmt (time td)) @ ''s '' @ name td @ [CHR 0x0A]
    \<and> export_result colors fmt (TextStreamResultExporter ostream False) (td\<lparr>time := t\<rparr>)
        = export_result colors fmt (TextStreamResultExporter ostream False) td
    \<and> buf (os (export_results colors fmt (TextStreamResultExporter ostream export_time) tcase))
        = buf ostream @ concat (map (text_line colors fmt export_time) (data tcase))"
proof -
  have a: "buf (os (export_result colors fmt (TextStreamResultExporter ostream False) td))
        = buf ostream @ ''['' @ result_token colors (passed td) @ ''] '' @ name td @ [CHR 0x0A]"
    using export_result_line [of "TextStreamResultExporter ostream False" colors fmt td] assms
    by (simp add: TextStreamResultExporter_def text_line_def)
  have b: "buf (os (export_result colors fmt (TextStreamResultExporter ostream True) td))
        = buf ostream @ ''['' @ result_token colors (passed td) @ ''] ''
          @ pad 8 (fmt (time td)) @ ''s '' @ name td @ [CHR 0x0A]"
    using export_result_line [of "TextStreamResultExporter ostream True" colors fmt td] assms
    by (simp add: TextStreamResultExporter_def text_line_def)
  have c: "buf (os (export_results colors fmt (TextStreamResultExporter ostream export_time) tcase))
        = buf ostream @ concat (map (text_line colors fmt export_time) (data tcase))"
    using foldl_export_result [of "TextStreamResultExporter ostream export_time" colors fmt "data tcase"]
      assms
    by (simp add: TextStreamResultExporter_def export_results_def get_data_def)
  have d: "export_result colors fmt (TextStreamResultExporter ostream False) (td\<lparr>time := t\<rparr>)
       = export_result colors fmt (TextStreamResultExporter ostream False) td"
    by (simp add: export_result_def TextStreamResultExporter_def is_duration_exported_def Let_def)
  show ?thesis by (intro conjI a b c d)
qed

theorem text_line_has_duration_iff_enabled_witness:
  "width \<lparr>buf = [], width = 0\<rparr> = 0
   \<and> buf (os (export_result False (\<lambda>n::int. if n = 0 then ''0'' else ''0.25'')
         (TextStreamResultExporter \<lparr>buf = [], width = 0\<rparr> False)
         \<lparr>func = testFailed, name = ''Test fail 1'', passed = False, time = 0\<rparr>))
       = ''[FAILED] Test fail 1'' @ [CHR 0x0A]
   \<and> buf (os (export_result False (\<lambda>n::int. if n = 0 then ''0'' else ''0.25'')
         (TextStreamResultExporter \<lparr>buf = [], width = 0\<rparr> True)
         \<lparr>func = testFailed, name = ''Test fail 1'', passed = False, time = 0\<rparr>))
       = ''[FAILED]        0s Test fail 1'' @ [CHR 0x0A]"
proof -
  let ?os = "\<lparr>buf = [], width = 0\<rparr>"
  let ?f = "\<lambda>n::int. if n = 0 then ''0'' else ''0.25''"
  let ?td = "\<lparr>func = testFailed, name = ''Test fail 1'', passed = False, time = 0::int\<rparr>"
  have h: "width ?os = 0" by simp
  from text_line_has_duration_iff_enabled [OF h, of False ?f ?td, THEN conjunct1]
  have a: "buf (os (export_result False ?f (TextStreamResultExporter ?os False) ?td))
       = ''[FAILED] Test fail 1'' @ [CHR 0x0A]"
    by (simp add: result_token_def ENKI_STYLE_FAILED_def ENKI_STR_FAILED_def ENKI_STYLE_DEFAULT_def)
  from text_line_has_duration_iff_enabled [OF h, of False ?f ?td, THEN conjunct2, THEN conjunct1]
  have b: "buf (os (export_result False ?f (TextStreamResultExporter ?os True) ?td))
       = ''[FAILED]        0s Test fail 1'' @ [CHR 0x0A]"
    by (simp add: result_token_def ENKI_STYLE_FAILED_def ENKI_STR_FAILED_def ENKI_STYLE_DEFAULT_def
        pad_def eval_nat_numeral)
  show ?thesis by (intro conjI h a b)
qed

section \<open>Properties of \<^verbatim>\<open>run()\<close> on the object\<close>

subsection \<open>The list and its iterators\<close>

lemma map_fst_write_node: "map fst (write_node a f ds) = map fst ds"
  by (induction ds) (auto simp: write_node_def)

lemma length_write_node: "length (write_node a f ds) = length ds"
  by (simp add: write_node_def)

lemma same_but_outcome_refl: "same_but_outcome x x"
  unfolding same_but_outcome_def
  by (metis TestData'.surjective TestData'.update_convs(3) TestData'.update_convs(4))

lemma same_but_outcome_trans:
  assumes "same_but_outcome x y" and "same_but_outcome y z"
  shows "same_but_outcome x z"
proof -
  from assms(1) obtain p t where xy: "fst y = fst x" "snd y = (snd x)\<lparr>passed' := p, time' := t\<rparr>"
    unfolding same_but_outcome_def by blast
  from assms(2) obtain q u where yz: "fst z = fst y" "snd z = (snd y)\<lparr>passed' := q, time' := u\<rparr>"
    unfolding same_but_outcome_def by blast
  from xy yz have "snd z = (snd x)\<lparr>passed' := q, time' := u\<rparr>" by simp
  then have "\<exists>p t. snd z = (snd x)\<lparr>passed' := p, time' := t\<rparr>" by blast
  with xy yz show ?thesis unfolding same_but_outcome_def by simp
qed

lemma frame_refl: "list_all2 same_but_outcome ds ds"
  by (rule list_all2_refl) (rule same_but_outcome_refl)

lemma frame_trans:
  "list_all2 same_but_outcome xs ys \<Longrightarrow> list_all2 same_but_outcome ys zs \<Longrightarrow>
   list_all2 same_but_outcome xs zs"
  by (rule list_all2_trans [where ?P1.0 = same_but_outcome and ?P2.0 = same_but_outcome])
     (auto intro: same_but_outcome_trans)

lemma write_node_frame:
  assumes "\<And>x. \<exists>p t. f x = x\<lparr>passed' := p, time' := t\<rparr>"
  shows "list_all2 same_but_outcome ds (write_node a f ds)"
proof (induction ds)
  case Nil
  show ?case by (simp add: write_node_def)
next
  case (Cons x ds)
  obtain b td where x: "x = (b, td)" by (cases x)
  have "same_but_outcome (b, td) (b, f td)"
    using assms [of td] by (auto simp: same_but_outcome_def)
  with Cons x same_but_outcome_refl [of "(b, td)"] show ?case
    by (auto simp: write_node_def)
qed

lemma passed_update_frame: "\<exists>q t. x\<lparr>passed' := p\<rparr> = x\<lparr>passed' := q, time' := t\<rparr>"
proof -
  have "x\<lparr>passed' := p\<rparr> = x\<lparr>passed' := p, time' := time' x\<rparr>" by simp
  then show ?thesis by blast
qed

lemma time_passed_update_frame:
  "\<exists>q u. x\<lparr>time' := t, passed' := p\<rparr> = x\<lparr>passed' := q, time' := u\<rparr>"
  by (rule exI [of _ p], rule exI [of _ t], simp)

lemma frame_ids: "list_all2 same_but_outcome ds ds' \<Longrightarrow> map fst ds' = map fst ds"
  by (induction ds ds' rule: list_all2_induct) (auto simp: same_but_outcome_def)

lemma frame_funcs:
  "list_all2 same_but_outcome ds ds' \<Longrightarrow>
   map (\<lambda>x. (func' (snd x), name' (snd x))) ds' = map (\<lambda>x. (func' (snd x), name' (snd x))) ds"
  by (induction ds ds' rule: list_all2_induct) (auto simp: same_but_outcome_def)

lemma map_of_nth:
  "distinct (map fst ds) \<Longrightarrow> i < length ds \<Longrightarrow> map_of ds (fst (ds ! i)) = Some (snd (ds ! i))"
  by (simp add: map_of_eq_Some_iff)

lemma begin_it_drop:
  "begin_it (drop i ds) = (if i < length ds then Some (fst (ds ! i)) else None)"
proof (cases "i < length ds")
  case True
  then have "drop i ds = ds ! i # drop (Suc i) ds" by (simp add: Cons_nth_drop_Suc)
  with True show ?thesis by (simp add: begin_it_def split: prod.splits)
next
  case False
  then show ?thesis by (simp add: begin_it_def)
qed

lemma next_it_nth:
  "distinct (map fst ds) \<Longrightarrow> i < length ds \<Longrightarrow>
   next_it (fst (ds ! i)) ds = Some (begin_it (drop (Suc i) ds))"
proof (induction ds arbitrary: i)
  case Nil
  then show ?case by simp
next
  case (Cons x ds)
  obtain b td where x: "x = (b, td)" by (cases x)
  show ?case
  proof (cases i)
    case 0
    with x show ?thesis by simp
  next
    case (Suc j)
    with Cons.prems x have "fst (ds ! j) \<noteq> b"
      by (metis distinct.simps(2) fst_conv length_Cons list.simps(9) not_less_eq nth_map nth_mem length_map Suc_less_eq)
    with Cons Suc x show ?thesis by simp
  qed
qed

subsection \<open>Hooks and test bodies that keep the list\<close>

lemma frame_func_list:
  "list_all2 same_but_outcome ds ds' \<Longrightarrow>
   map (\<lambda>x. func' (snd x)) ds' = map (\<lambda>x. func' (snd x)) ds"
  by (induction ds ds' rule: list_all2_induct) (auto simp: same_but_outcome_def)

lemma run_body'_keeps:
  assumes k: "keeps_list (test_body cls (func' td))" and a: "a \<in> set (map fst (data' e))"
  shows "fst (run_body' secs cls a td err e) \<noteq> Some InvalidIterator
       \<and> fst (run_body' secs cls a td err e) \<noteq> Some OutOfFuel
       \<and> list_all2 same_but_outcome (data' e) (data' (snd (snd (run_body' secs cls a td err e))))"
proof -
  obtain c e1 where m: "test_body cls (func' td) e = (c, e1)" by (cases "test_body cls (func' td) e")
  from k m have d: "data' e1 = data' e" unfolding keeps_list_def by (metis snd_conv)
  have w1: "list_all2 same_but_outcome (data' e) (write_node a (\<lambda>r. r\<lparr>time' := t, passed' := p\<rparr>) (data' e))" for t p
    by (rule write_node_frame) (rule time_passed_update_frame)
  have w2: "list_all2 same_but_outcome (data' e) (write_node a (\<lambda>r. r\<lparr>passed' := p\<rparr>) (data' e))" for p
    by (rule write_node_frame) (rule passed_update_frame)
  show ?thesis
  proof (cases c)
    case Returns
    with m d a w1 show ?thesis by (simp add: run_body'_def Let_def)
  next
    case (Throws x)
    with m d a w2 frame_refl [of "data' e"] show ?thesis
      by (cases x) (simp_all add: run_body'_def)
  qed
qed

lemma run_loop'_keeps:
  assumes "distinct (map fst (data' e))"
    and "\<forall>f\<in>set (map (\<lambda>x. func' (snd x)) (data' e)). keeps_list (test_body cls f)"
    and "length (data' e) \<le> i + n"
  shows "fst (run_loop' n secs cls (begin_it (drop i (data' e))) err e log) \<noteq> Inl OutOfFuel
       \<and> fst (run_loop' n secs cls (begin_it (drop i (data' e))) err e log) \<noteq> Inl InvalidIterator
       \<and> list_all2 same_but_outcome (data' e)
            (data' (fst (snd (run_loop' n secs cls (begin_it (drop i (data' e))) err e log))))"
  using assms
proof (induction n arbitrary: i err e log)
  case 0
  then have "begin_it (drop i (data' e)) = None" by (simp add: begin_it_drop begin_it_def)
  then show ?case by (simp add: frame_refl)
next
  case (Suc n)
  show ?case
  proof (cases "i < length (data' e)")
    case False
    then have "begin_it (drop i (data' e)) = None" by (simp add: begin_it_drop begin_it_def)
    then show ?thesis by (simp add: frame_refl)
  next
    case True
    let ?a = "fst (data' e ! i)"
    let ?td = "snd (data' e ! i)"
    from True have it: "begin_it (drop i (data' e)) = Some ?a" by (simp add: begin_it_drop)
    from Suc.prems(1) True have look: "map_of (data' e) ?a = Some ?td" by (rule map_of_nth)
    from True have mem: "?a \<in> set (map fst (data' e))" by simp
    from True Suc.prems(2) have k: "keeps_list (test_body cls (func' ?td))" by simp
    obtain x err' e' where rb: "run_body' secs cls ?a ?td err e = (x, err', e')"
      by (metis prod_cases3)
    from run_body'_keeps [OF k mem, of secs err] rb
    have nx: "x \<noteq> Some InvalidIterator" "x \<noteq> Some OutOfFuel"
      and fr: "list_all2 same_but_outcome (data' e) (data' e')" by simp_all
    show ?thesis
    proof (cases x)
      case (Some y)
      with it look rb nx fr show ?thesis by simp
    next
      case None
      from fr have ids: "map fst (data' e') = map fst (data' e)" by (rule frame_ids)
      from fr have fs: "map (\<lambda>x. func' (snd x)) (data' e') = map (\<lambda>x. func' (snd x)) (data' e)"
        by (rule frame_func_list)
      from ids have len: "length (data' e') = length (data' e)" by (metis length_map)
      from ids True len have a': "fst (data' e' ! i) = ?a" by (metis nth_map)
      from ids Suc.prems(1) have d': "distinct (map fst (data' e'))" by simp
      from next_it_nth [OF d', of i] True len a'
      have nxt: "next_it ?a (data' e') = Some (begin_it (drop (Suc i) (data' e')))" by simp
      from Suc.prems(3) len have l': "length (data' e') \<le> Suc i + n" by simp
      from Suc.prems(2) fs have k': "\<forall>f\<in>set (map (\<lambda>x. func' (snd x)) (data' e')). keeps_list (test_body cls f)"
        by simp
      note ih = Suc.IH [OF d' k' l', of err' "log @ [Test (name' ?td)]"]
      from it look rb None nxt
      have eq: "run_loop' (Suc n) secs cls (begin_it (drop i (data' e))) err e log
        = run_loop' n secs cls (begin_it (drop (Suc i) (data' e'))) err' e' (log @ [Test (name' ?td)])"
        by simp
      from ih fr show ?thesis unfolding eq by (blast intro: frame_trans)
    qed
  qed
qed




lemma run'_keeps:
  assumes d: "distinct (map fst (data' e))"
    and ks: "keeps_list (setup' cls)" and kc: "keeps_list (cleanup' cls)"
    and km: "\<forall>f\<in>set (map (\<lambda>x. func' (snd x)) (data' e)). keeps_list (test_body cls f)"
    and n: "length (data' e) \<le> n"
  shows "fst (run' n secs cls e) \<noteq> Inl OutOfFuel
       \<and> fst (run' n secs cls e) \<noteq> Inl InvalidIterator
       \<and> list_all2 same_but_outcome (data' e) (data' (fst (snd (run' n secs cls e))))"
proof -
  obtain c e1 where s: "setup' cls e = (c, e1)" by (cases "setup' cls e")
  from ks s have d1: "data' e1 = data' e" unfolding keeps_list_def by (metis snd_conv)
  show ?thesis
  proof (cases c)
    case (Throws x)
    with s d1 show ?thesis by (simp add: run'_def frame_refl)
  next
    case Returns
    obtain r e2 log where rl: "run_loop' n secs cls (begin_it (data' e1)) False e1 [Setup] = (r, e2, log)"
      by (metis prod_cases3)
    from d km n d1 have "distinct (map fst (data' e1))"
      "\<forall>f\<in>set (map (\<lambda>x. func' (snd x)) (data' e1)). keeps_list (test_body cls f)"
      "length (data' e1) \<le> 0 + n" by simp_all
    from run_loop'_keeps [OF this, of secs False "[Setup]"] rl d1
    have r: "r \<noteq> Inl OutOfFuel" "r \<noteq> Inl InvalidIterator"
      and fr: "list_all2 same_but_outcome (data' e) (data' e2)" by simp_all
    obtain c3 e3 where cl: "cleanup' cls e2 = (c3, e3)" by (cases "cleanup' cls e2")
    from kc cl have d3: "data' e3 = data' e2" unfolding keeps_list_def by (metis snd_conv)
    from s Returns rl r fr cl d3 show ?thesis
      by (cases r; cases c3) (simp_all add: run'_def)
  qed
qed


lemma valid_list_new: "valid_list (new_TestCase' u t)"
  by (simp add: valid_list_def new_TestCase'_def)

lemma valid_list_add': "valid_list e \<Longrightarrow> valid_list (add' test nm e)"
  by (auto simp: valid_list_def add'_def less_Suc_eq)

lemma valid_list_add_all': "valid_list e \<Longrightarrow> valid_list (add_all' regs e)"
  by (induction regs arbitrary: e) (auto simp: valid_list_add')

lemma regs_add_all':
  "map (\<lambda>x. (func' (snd x), name' (snd x))) (data' (add_all' regs e))
     = map (\<lambda>x. (func' (snd x), name' (snd x))) (data' e) @ regs"
  by (induction regs arbitrary: e) (auto simp: add'_def)

subsection \<open>The first model is the restriction of the second\<close>

text \<open>
  For hooks and test bodies that act on the data members and the clock only, a run on the
  object and a run in the first model do the same, step by step: the same result, the same
  records, the same state of the members and the clock, the same calls.
\<close>

lemma write_node_nth:
  "distinct (map fst ds) \<Longrightarrow> i < length ds \<Longrightarrow>
   write_node (fst (ds ! i)) f ds = ds[i := (fst (ds ! i), f (snd (ds ! i)))]"
proof (induction ds arbitrary: i)
  case Nil
  then show ?case by simp
next
  case (Cons x ds)
  obtain b td where x: "x = (b, td)" by (cases x)
  show ?case
  proof (cases i)
    case 0
    from Cons.prems(1) x have "b \<notin> fst ` set ds" by simp
    then have "map (\<lambda>(c, y). if c = b then (c, f y) else (c, y)) ds = ds"
      by (induction ds) auto
    with 0 x show ?thesis by (simp add: write_node_def)
  next
    case (Suc j)
    with Cons.prems x have nb: "fst (ds ! j) \<noteq> b"
      by (metis distinct.simps(2) fst_conv length_Cons list.simps(9) not_less_eq nth_map nth_mem length_map Suc_less_eq)
    from Cons.prems Suc have "write_node (fst (ds ! j)) f ds = ds[j := (fst (ds ! j), f (snd (ds ! j)))]"
      by (intro Cons.IH) auto
    with Suc x nb show ?thesis by (simp add: write_node_def)
  qed
qed

lemma world_of_lift:
  "p (world_of e) = (c, w) \<Longrightarrow>
   lift_proc p e = (c, e\<lparr>members' := members w, clock' := clock w\<rparr>)
   \<and> world_of (e\<lparr>members' := members w, clock' := clock w\<rparr>) = w
   \<and> data' (e\<lparr>members' := members w, clock' := clock w\<rparr>) = data' e"
  by (simp add: lift_proc_def world_of_def)

lemma keeps_list_lift: "keeps_list (lift_proc p)"
  unfolding keeps_list_def lift_proc_def by (auto split: prod.splits)

lemma run_body_refines:
  fixes e :: "('f, 'u, 'd) TestCase'"
  assumes d: "distinct (map fst (data' e))" and i: "i < length (data' e)"
  shows "\<exists>td2. data' (snd (snd (run_body' secs (lifted_class s c body) (fst (data' e ! i)) (snd (data' e ! i)) err e)))
            = (data' e)[i := (fst (data' e ! i), td2)]
        \<and> run_body secs (old_td body (snd (data' e ! i))) err (world_of e)
            = (case fst (run_body' secs (lifted_class s c body) (fst (data' e ! i)) (snd (data' e ! i)) err e) of
                 None \<Rightarrow> None | Some (Uncaught x) \<Rightarrow> Some x | Some InvalidIterator \<Rightarrow> None | Some OutOfFuel \<Rightarrow> None,
               old_td body td2,
               fst (snd (run_body' secs (lifted_class s c body) (fst (data' e ! i)) (snd (data' e ! i)) err e)),
               world_of (snd (snd (run_body' secs (lifted_class s c body) (fst (data' e ! i)) (snd (data' e ! i)) err e))))
        \<and> fst (run_body' secs (lifted_class s c body) (fst (data' e ! i)) (snd (data' e ! i)) err e) \<noteq> Some InvalidIterator
        \<and> fst (run_body' secs (lifted_class s c body) (fst (data' e ! i)) (snd (data' e ! i)) err e) \<noteq> Some OutOfFuel"
proof -
  let ?a = "fst (data' e ! i)"
  let ?td = "snd (data' e ! i)"
  let ?cls = "lifted_class s c body :: ('f, 'u, 'd) test_class"
  obtain cm w where b: "body (func' ?td) (world_of e) = (cm, w)"
    by (cases "body (func' ?td) (world_of e)")
  let ?e1 = "e\<lparr>members' := members w, clock' := clock w\<rparr>"
  from world_of_lift [of "body (func' ?td)" e cm w] b
  have m: "test_body ?cls (func' ?td) e = (cm, ?e1)" and w1: "world_of ?e1 = w" and d1: "data' ?e1 = data' e"
    by (simp_all add: lifted_class_def)
  have f: "func (old_td body ?td) (world_of e) = (cm, w)" using b by (simp add: old_td_def)
  from i have mem: "?a \<in> set (map fst (data' e))" by simp
  have c1: "clock' ?e1 = clock w" "clock' e = clock (world_of e)" by (simp_all add: world_of_def)
  note wn = write_node_nth [OF d i]
  show ?thesis
  proof (cases cm)
    case Returns
    let ?td2 = "?td\<lparr>time' := secs (clock w - clock (world_of e)), passed' := True\<rparr>"
    from m Returns d1 mem wn c1
    have rb': "run_body' secs ?cls ?a ?td err e = (None, err, ?e1\<lparr>data' := (data' e)[i := (?a, ?td2)]\<rparr>)"
      by (simp add: run_body'_def Let_def)
    have wo: "world_of (?e1\<lparr>data' := (data' e)[i := (?a, ?td2)]\<rparr>) = w"
      using w1 by (simp add: world_of_def)
    from f Returns have rb: "run_body secs (old_td body ?td) err (world_of e)
      = (None, old_td body ?td2, err, w)"
      by (simp add: run_body_Returns old_td_def)
    show ?thesis unfolding rb' using rb wo by (intro exI [of _ ?td2]) simp
  next
    case (Throws x)
    show ?thesis
    proof (cases x)
      case TestFailedException
      let ?td2 = "?td\<lparr>passed' := False\<rparr>"
      from m Throws TestFailedException d1 mem wn
      have rb': "run_body' secs ?cls ?a ?td err e = (None, True, ?e1\<lparr>data' := (data' e)[i := (?a, ?td2)]\<rparr>)"
        by (simp add: run_body'_def Let_def)
      have wo: "world_of (?e1\<lparr>data' := (data' e)[i := (?a, ?td2)]\<rparr>) = w"
        using w1 by (simp add: world_of_def)
      from f Throws TestFailedException have rb: "run_body secs (old_td body ?td) err (world_of e)
        = (None, old_td body ?td2, True, w)"
        by (simp add: run_body_Failed old_td_def)
      show ?thesis unfolding rb' using rb wo by (intro exI [of _ ?td2]) simp
    next
      case TestPassedException
      let ?td2 = "?td\<lparr>passed' := True\<rparr>"
      from m Throws TestPassedException d1 mem wn
      have rb': "run_body' secs ?cls ?a ?td err e = (None, err, ?e1\<lparr>data' := (data' e)[i := (?a, ?td2)]\<rparr>)"
        by (simp add: run_body'_def Let_def)
      have wo: "world_of (?e1\<lparr>data' := (data' e)[i := (?a, ?td2)]\<rparr>) = w"
        using w1 by (simp add: world_of_def)
      from f Throws TestPassedException have rb: "run_body secs (old_td body ?td) err (world_of e)
        = (None, old_td body ?td2, err, w)"
        by (simp add: run_body_Passed old_td_def)
      show ?thesis unfolding rb' using rb wo by (intro exI [of _ ?td2]) simp
    next
      case (OtherException msg)
      from m Throws OtherException
      have rb': "run_body' secs ?cls ?a ?td err e = (Some (Uncaught (OtherException msg)), err, ?e1)"
        by (simp add: run_body'_def Let_def)
      from f Throws OtherException have rb: "run_body secs (old_td body ?td) err (world_of e)
        = (Some (OtherException msg), old_td body ?td, err, w)"
        by (simp add: run_body_Other)
      have "(data' e)[i := (?a, ?td)] = data' e" by simp
      with rb w1 d1 show ?thesis unfolding rb' by (intro exI [of _ ?td]) simp
    qed
  qed
qed

lemma run_loop_refines:
  fixes e :: "('f, 'u, 'd) TestCase'"
  assumes "distinct (map fst (data' e))"
    and "length (data' e) \<le> i + n"
    and "run_loop' n secs (lifted_class s c body) (begin_it (drop i (data' e))) err e log = (r', e', log')"
  shows "\<exists>r. run_loop secs (map (\<lambda>x. old_td body (snd x)) (drop i (data' e))) err (world_of e) log
              = (r, map (\<lambda>x. old_td body (snd x)) (drop i (data' e')), world_of e', log')
           \<and> result_agrees r' r
           \<and> take i (data' e') = take i (data' e)
           \<and> map fst (data' e') = map fst (data' e)"
  using assms
proof (induction n arbitrary: i err e log r' e' log')
  case 0
  then have "begin_it (drop i (data' e)) = None" "drop i (data' e) = []"
    by (simp_all add: begin_it_drop begin_it_def)
  with "0.prems"(3) show ?case by (auto simp: result_agrees_def)
next
  case (Suc n)
  let ?cls = "lifted_class s c body :: ('f, 'u, 'd) test_class"
  let ?old = "map (\<lambda>x. old_td body (snd x))"
  show ?case
  proof (cases "i < length (data' e)")
    case False
    then have "begin_it (drop i (data' e)) = None" "drop i (data' e) = []"
      by (simp_all add: begin_it_drop begin_it_def)
    with Suc.prems(3) show ?thesis by (auto simp: result_agrees_def)
  next
    case True
    let ?a = "fst (data' e ! i)"
    let ?td = "snd (data' e ! i)"
    from True have it: "begin_it (drop i (data' e)) = Some ?a" by (simp add: begin_it_drop)
    from Suc.prems(1) True have look: "map_of (data' e) ?a = Some ?td" by (rule map_of_nth)
    from True have dr: "drop i (data' e) = (?a, ?td) # drop (Suc i) (data' e)"
      by (simp add: Cons_nth_drop_Suc)
    obtain x err1 e1 where rb': "run_body' secs ?cls ?a ?td err e = (x, err1, e1)"
      by (metis prod_cases3)
    from run_body_refines [OF Suc.prems(1) True, of secs s c body err] rb'
    obtain td2 where d1: "data' e1 = (data' e)[i := (?a, td2)]"
      and rb: "run_body secs (old_td body ?td) err (world_of e)
            = (case x of None \<Rightarrow> None | Some (Uncaught y) \<Rightarrow> Some y
                 | Some InvalidIterator \<Rightarrow> None | Some OutOfFuel \<Rightarrow> None,
               old_td body td2, err1, world_of e1)"
      and nx: "x \<noteq> Some InvalidIterator" "x \<noteq> Some OutOfFuel"
      by auto
    from d1 have ids1: "map fst (data' e1) = map fst (data' e)"
      by (simp add: map_update list_update_same_conv True)
    from d1 True have dr1: "drop i (data' e1) = (?a, td2) # drop (Suc i) (data' e)"
      by (simp add: drop_update_swap Cons_nth_drop_Suc [symmetric] upd_conv_take_nth_drop)
    from d1 have tk1: "take i (data' e1) = take i (data' e)" by simp
    have nm: "name (old_td body ?td) = name' ?td" by (simp add: old_td_def)
    show ?thesis
    proof (cases x)
      case (Some y)
      with nx obtain ex where y: "y = Uncaught ex" by (cases y) auto
      from Suc.prems(3) it look rb' Some
      have res: "r' = Inl y" "e' = e1" "log' = log @ [Test (name' ?td)]" by simp_all
      from rb Some y have "run_body secs (old_td body ?td) err (world_of e)
        = (Some ex, old_td body td2, err1, world_of e1)" by simp
      from run_loop_Cons_Some [OF this, of "?old (drop (Suc i) (data' e))" log]
      have "run_loop secs (?old (drop i (data' e))) err (world_of e) log
        = (Inl ex, ?old (drop i (data' e1)), world_of e1, log @ [Test (name' ?td)])"
        by (simp add: dr dr1 nm)
      with res y tk1 ids1 show ?thesis by (simp add: result_agrees_def)
    next
      case None
      from ids1 Suc.prems(1) have dd1: "distinct (map fst (data' e1))" by simp
      from ids1 have len1: "length (data' e1) = length (data' e)" by (metis length_map)
      from d1 True have a1: "fst (data' e1 ! i) = ?a" by simp
      from next_it_nth [OF dd1, of i] True len1 a1
      have nxt: "next_it ?a (data' e1) = Some (begin_it (drop (Suc i) (data' e1)))" by simp
      from Suc.prems(3) it look rb' None nxt
      have rl': "run_loop' n secs ?cls (begin_it (drop (Suc i) (data' e1))) err1 e1 (log @ [Test (name' ?td)])
        = (r', e', log')" by simp
      from Suc.prems(2) len1 have l1: "length (data' e1) \<le> Suc i + n" by simp
      from Suc.IH [OF dd1 l1 rl'] obtain r where
        rl: "run_loop secs (?old (drop (Suc i) (data' e1))) err1 (world_of e1) (log @ [Test (name' ?td)])
              = (r, ?old (drop (Suc i) (data' e')), world_of e', log')"
        and ag: "result_agrees r' r"
        and tk: "take (Suc i) (data' e') = take (Suc i) (data' e1)"
        and ids: "map fst (data' e') = map fst (data' e1)"
        by blast
      from d1 have dS: "drop (Suc i) (data' e1) = drop (Suc i) (data' e)" by simp
      from ids len1 have len': "length (data' e') = length (data' e)" by (metis length_map)
      from tk True len1 len' have nth': "data' e' ! i = data' e1 ! i"
        by (metis lessI nth_take)
      with d1 True have nth2: "data' e' ! i = (?a, td2)" by simp
      from True len' have "drop i (data' e') = data' e' ! i # drop (Suc i) (data' e')"
        by (simp add: Cons_nth_drop_Suc)
      with nth2 have dr': "drop i (data' e') = (?a, td2) # drop (Suc i) (data' e')" by simp
      from rb None have rbN: "run_body secs (old_td body ?td) err (world_of e)
        = (None, old_td body td2, err1, world_of e1)" by simp
      from rl dS nm have rl2: "run_loop secs (?old (drop (Suc i) (data' e))) err1 (world_of e1)
          (log @ [Test (name (old_td body ?td))])
        = (r, ?old (drop (Suc i) (data' e')), world_of e', log')" by simp
      from run_loop_Cons_None [OF rbN rl2]
      have "run_loop secs (?old (drop i (data' e))) err (world_of e) log
        = (r, ?old (drop i (data' e')), world_of e', log')"
        by (simp add: dr dr')
      moreover from tk tk1 have "take i (data' e') = take i (data' e)"
        by (metis take_Suc_conv_app_nth True len1 len' append_eq_append_conv length_take butlast_snoc
            butlast_take diff_Suc_1 less_or_eq_imp_le Suc_leI)
      moreover from ids ids1 have "map fst (data' e') = map fst (data' e)" by simp
      ultimately show ?thesis using ag by blast
    qed
  qed
qed

lemma run_refines:
  fixes e :: "('f, 'u, 'd) TestCase'"
  assumes d: "distinct (map fst (data' e))" and n: "length (data' e) \<le> n"
  shows "\<exists>r. run secs (old_of s c body e [])
             = (r, old_of s c body (fst (snd (run' n secs (lifted_class s c body) e)))
                     (snd (snd (run' n secs (lifted_class s c body) e))))
           \<and> result_agrees (fst (run' n secs (lifted_class s c body) e)) r"
proof -
  let ?cls = "lifted_class s c body :: ('f, 'u, 'd) test_class"
  let ?tc = "old_of s c body e [] :: ('u, 'd) TestCase"
  obtain c0 w0 where s0: "s (world_of e) = (c0, w0)" by (cases "s (world_of e)")
  let ?e1 = "e\<lparr>members' := members w0, clock' := clock w0\<rparr>"
  from world_of_lift [of s e c0 w0] s0
  have su: "setup' ?cls e = (c0, ?e1)" and w1: "world_of ?e1 = w0" and d1: "data' ?e1 = data' e"
    by (simp_all add: lifted_class_def)
  have so: "setup_hook ?tc (self ?tc) = (c0, w0)" using s0 by (simp add: old_of_def)
  show ?thesis
  proof (cases c0)
    case (Throws x)
    from su Throws have "run' n secs ?cls e = (Inl (Uncaught x), ?e1, [Setup])"
      by (simp add: run'_def)
    moreover from so Throws have "run secs ?tc = (Inl x, ?tc\<lparr>self := w0, calls := calls ?tc @ [Setup]\<rparr>)"
      by (simp add: run_def)
    moreover have "?tc\<lparr>self := w0, calls := calls ?tc @ [Setup]\<rparr> = old_of s c body ?e1 [Setup]"
      using w1 d1 by (simp add: old_of_def)
    ultimately show ?thesis by (simp add: result_agrees_def)
  next
    case Returns
    obtain r' e2 log2 where rl':
      "run_loop' n secs ?cls (begin_it (drop 0 (data' ?e1))) False ?e1 [Setup] = (r', e2, log2)"
      by (metis prod_cases3)
    from d d1 have dd1: "distinct (map fst (data' ?e1))" by simp
    from n d1 have l1: "length (data' ?e1) \<le> 0 + n" by simp
    from run_loop_refines [OF dd1 l1 rl'] obtain r where
      rl: "run_loop secs (map (\<lambda>x. old_td body (snd x)) (drop 0 (data' ?e1))) False (world_of ?e1) [Setup]
            = (r, map (\<lambda>x. old_td body (snd x)) (drop 0 (data' e2)), world_of e2, log2)"
      and ag: "result_agrees r' r" by blast
    from rl w1 d1 have rlo: "run_loop secs (data ?tc) False w0 (calls ?tc @ [Setup])
      = (r, map (\<lambda>x. old_td body (snd x)) (data' e2), world_of e2, log2)"
      by (simp add: old_of_def)
    from rl' have rl'': "run_loop' n secs ?cls (begin_it (data' ?e1)) False ?e1 [Setup] = (r', e2, log2)"
      by simp
    show ?thesis
    proof (cases r')
      case (Inl y)
      with ag obtain ex where y: "y = Uncaught ex" "r = Inl ex"
        by (cases y) (auto simp: result_agrees_def)
      from su Returns rl'' Inl have "run' n secs ?cls e = (Inl y, e2, log2)" by (simp add: run'_def)
      moreover from so Returns rlo y
      have "run secs ?tc = (Inl ex, ?tc\<lparr>data := map (\<lambda>x. old_td body (snd x)) (data' e2),
          self := world_of e2, calls := log2\<rparr>)"
        by (simp add: run_def)
      moreover have "?tc\<lparr>data := map (\<lambda>x. old_td body (snd x)) (data' e2),
          self := world_of e2, calls := log2\<rparr> = old_of s c body e2 log2"
        by (simp add: old_of_def)
      ultimately show ?thesis using y by (simp add: result_agrees_def)
    next
      case (Inr b)
      with ag have r: "r = Inr b" by (simp add: result_agrees_def)
      obtain c3 w3 where c3: "c (world_of e2) = (c3, w3)" by (cases "c (world_of e2)")
      let ?e3 = "e2\<lparr>members' := members w3, clock' := clock w3\<rparr>"
      from world_of_lift [of c e2 c3 w3] c3
      have cl: "cleanup' ?cls e2 = (c3, ?e3)" and w3': "world_of ?e3 = w3" and d3: "data' ?e3 = data' e2"
        by (simp_all add: lifted_class_def)
      have co: "cleanup_hook ?tc (world_of e2) = (c3, w3)" using c3 by (simp add: old_of_def)
      have st: "?tc\<lparr>data := map (\<lambda>x. old_td body (snd x)) (data' e2),
          self := w3, calls := log2 @ [Cleanup]\<rparr> = old_of s c body ?e3 (log2 @ [Cleanup])"
        using w3' d3 by (simp add: old_of_def)
      show ?thesis
      proof (cases c3)
        case Returns
        from su \<open>c0 = Returns\<close> rl'' Inr cl Returns
        have "run' n secs ?cls e = (Inr b, ?e3, log2 @ [Cleanup])" by (simp add: run'_def)
        moreover from so \<open>c0 = Returns\<close> rlo r co Returns
        have "run secs ?tc = (Inr b, ?tc\<lparr>data := map (\<lambda>x. old_td body (snd x)) (data' e2),
          self := w3, calls := log2 @ [Cleanup]\<rparr>)"
          by (simp add: run_def)
        ultimately show ?thesis using st by (simp add: result_agrees_def)
      next
        case (Throws x)
        from su \<open>c0 = Returns\<close> rl'' Inr cl Throws
        have "run' n secs ?cls e = (Inl (Uncaught x), ?e3, log2 @ [Cleanup])" by (simp add: run'_def)
        moreover from so \<open>c0 = Returns\<close> rlo r co Throws
        have "run secs ?tc = (Inl x, ?tc\<lparr>data := map (\<lambda>x. old_td body (snd x)) (data' e2),
          self := w3, calls := log2 @ [Cleanup]\<rparr>)"
          by (simp add: run_def)
        ultimately show ?thesis using st by (simp add: result_agrees_def)
      qed
    qed
  qed
qed

text \<open>The definitions that a run of a sample class on the object unfolds.\<close>

lemmas sample_defs' = SkeletonTestCase_class_def SkeletonTestCase'_def Meddling_class_def
  add'_def new_TestCase'_def pass'_def fail'_def default_hook'_def run'_def run_body'_def
  begin_it_def write_node_def

lemma keeps_list_skeleton:
  "keeps_list (setup' (SkeletonTestCase_class :: (skeleton_test, unit, int) test_class))"
  "keeps_list (cleanup' (SkeletonTestCase_class :: (skeleton_test, unit, int) test_class))"
  "keeps_list (test_body (SkeletonTestCase_class :: (skeleton_test, unit, int) test_class) TestPass)"
  "keeps_list (test_body (SkeletonTestCase_class :: (skeleton_test, unit, int) test_class) TestFailed)"
  "keeps_list (test_body (SkeletonTestCase_class :: (skeleton_test, unit, int) test_class) TestEmpty)"
  by (simp_all add: keeps_list_def SkeletonTestCase_class_def pass'_def fail'_def default_hook'_def)

section \<open>The claims about the list and the hooks\<close>

text \<open>
  C4. Any sequence \<open>regs\<close> of calls of \<^verbatim>\<open>add\<close> leaves the records that were there before and
  then one record for each call, with the procedure and the name of that call, in the order
  of the calls; names are not compared, so repeated names change nothing. If the hooks and
  the bodies of the registered tests leave the list as they find it, a following \<^verbatim>\<open>run()\<close>,
  followed for as many tests as there are records, comes to its end and the list still holds
  exactly these records in this order.
\<close>

theorem results_in_registration_order_when_bodies_keep_list:
  "map (\<lambda>x. (func' (snd x), name' (snd x))) (data' (add_all' regs e))
     = map (\<lambda>x. (func' (snd x), name' (snd x))) (data' e) @ regs
   \<and> (valid_list e
        \<and> keeps_list (setup' cls) \<and> keeps_list (cleanup' cls)
        \<and> (\<forall>f\<in>set (map (\<lambda>x. func' (snd x)) (data' e)) \<union> set (map fst regs). keeps_list (test_body cls f))
        \<and> length (data' e) + length regs \<le> n
      \<longrightarrow> fst (run' n secs cls (add_all' regs e)) \<noteq> Inl OutOfFuel
        \<and> fst (run' n secs cls (add_all' regs e)) \<noteq> Inl InvalidIterator
        \<and> map (\<lambda>x. (func' (snd x), name' (snd x))) (data' (fst (snd (run' n secs cls (add_all' regs e)))))
            = map (\<lambda>x. (func' (snd x), name' (snd x))) (data' e) @ regs
        \<and> length (data' (fst (snd (run' n secs cls (add_all' regs e))))) = length (data' e) + length regs)"
proof -
  let ?e = "add_all' regs e"
  have cond: "fst (run' n secs cls ?e) \<noteq> Inl OutOfFuel
        \<and> fst (run' n secs cls ?e) \<noteq> Inl InvalidIterator
        \<and> map (\<lambda>x. (func' (snd x), name' (snd x))) (data' (fst (snd (run' n secs cls ?e))))
            = map (\<lambda>x. (func' (snd x), name' (snd x))) (data' e) @ regs
        \<and> length (data' (fst (snd (run' n secs cls ?e)))) = length (data' e) + length regs"
    if h: "valid_list e" "keeps_list (setup' cls)" "keeps_list (cleanup' cls)"
      "\<forall>f\<in>set (map (\<lambda>x. func' (snd x)) (data' e)) \<union> set (map fst regs). keeps_list (test_body cls f)"
      "length (data' e) + length regs \<le> n"
  proof -
    from valid_list_add_all' [OF h(1), of regs] have d: "distinct (map fst (data' ?e))"
      by (simp add: valid_list_def)
    from arg_cong [OF regs_add_all' [of regs e], of "map fst"]
    have fs: "map (\<lambda>x. func' (snd x)) (data' ?e) = map (\<lambda>x. func' (snd x)) (data' e) @ map fst regs"
      by (simp add: comp_def)
    from arg_cong [OF regs_add_all' [of regs e], of length]
    have len: "length (data' ?e) = length (data' e) + length regs" by simp
    from h(4) fs have km: "\<forall>f\<in>set (map (\<lambda>x. func' (snd x)) (data' ?e)). keeps_list (test_body cls f)"
      by auto
    from h(5) len have n: "length (data' ?e) \<le> n" by simp
    note k = run'_keeps [OF d h(2) h(3) km n, of secs]
    from k have fr: "list_all2 same_but_outcome (data' ?e) (data' (fst (snd (run' n secs cls ?e))))"
      by blast
    from frame_funcs [OF fr] regs_add_all' [of regs e]
    have m: "map (\<lambda>x. (func' (snd x), name' (snd x))) (data' (fst (snd (run' n secs cls ?e))))
           = map (\<lambda>x. (func' (snd x), name' (snd x))) (data' e) @ regs" by simp
    from list_all2_lengthD [OF fr] len
    have l: "length (data' (fst (snd (run' n secs cls ?e)))) = length (data' e) + length regs" by simp
    from k m l show ?thesis by blast
  qed
  from regs_add_all' [of regs e] cond show ?thesis by blast
qed

theorem results_in_registration_order_when_bodies_keep_list_witness:
  "valid_list (new_TestCase' () 0 :: (skeleton_test, unit, int) TestCase')
   \<and> keeps_list (setup' (SkeletonTestCase_class :: (skeleton_test, unit, int) test_class))
   \<and> keeps_list (cleanup' (SkeletonTestCase_class :: (skeleton_test, unit, int) test_class))
   \<and> keeps_list (test_body (SkeletonTestCase_class :: (skeleton_test, unit, int) test_class) TestPass)
   \<and> keeps_list (test_body (SkeletonTestCase_class :: (skeleton_test, unit, int) test_class) TestFailed)
   \<and> map (\<lambda>x. (func' (snd x), name' (snd x)))
         (data' (fst (snd (run' 3 (\<lambda>n. n) SkeletonTestCase_class
            (add_all' [(TestPass, ''same name''), (TestFailed, ''same name''), (TestPass, ''same name'')]
               (new_TestCase' () 0 :: (skeleton_test, unit, int) TestCase'))))))
       = [(TestPass, ''same name''), (TestFailed, ''same name''), (TestPass, ''same name'')]"
proof -
  let ?e = "new_TestCase' () 0 :: (skeleton_test, unit, int) TestCase'"
  let ?cls = "SkeletonTestCase_class :: (skeleton_test, unit, int) test_class"
  let ?regs = "[(TestPass, ''same name''), (TestFailed, ''same name''), (TestPass, ''same name'')]"
  have v: "valid_list ?e" by (simp add: valid_list_def new_TestCase'_def)
  have km: "\<forall>f\<in>set (map (\<lambda>x. func' (snd x)) (data' ?e)) \<union> set (map fst ?regs).
      keeps_list (test_body ?cls f)"
    using keeps_list_skeleton by (simp add: new_TestCase'_def)
  have l: "length (data' ?e) + length ?regs \<le> 3" by (simp add: new_TestCase'_def)
  from results_in_registration_order_when_bodies_keep_list
    [of ?regs ?e ?cls 3 "\<lambda>n. n", THEN conjunct2, rule_format]
    v keeps_list_skeleton(1) keeps_list_skeleton(2) km l
  have c: "map (\<lambda>x. (func' (snd x), name' (snd x)))
         (data' (fst (snd (run' 3 (\<lambda>n. n) ?cls (add_all' ?regs ?e))))) = ?regs"
    by (simp add: new_TestCase'_def)
  show ?thesis by (intro conjI v c keeps_list_skeleton)
qed

text \<open>
  Without the condition on the bodies the second part fails. Two tests are registered; the
  body of the first calls \<^verbatim>\<open>get_data().pop_back()\<close>. The run ends with one record for two
  registered tests, and the second test was never called.
\<close>

theorem record_removed_counterexample:
  "run' 2 (\<lambda>n. n) Meddling_class
     (add_all' [(DropLast, ''first''), (Plain, ''second'')] (new_TestCase' () 0))
   = (Inr False,
      \<lparr>data' = [(0, \<lparr>func' = DropLast, name' = ''first'', passed' = True, time' = 0::int\<rparr>)],
       allocated = 2, members' = (), clock' = 0\<rparr>,
      [Setup, Test ''first'', Cleanup])"
  by (simp add: sample_defs' eval_nat_numeral)







end
